theory Spec2Isabelle
  imports Main
begin

section \<open>Values, errors and outcomes\<close>

text \<open>
  A Go \<^verbatim>\<open>string\<close> is a sequence of bytes, so it is a \<^typ>\<open>string\<close> here: one
  \<^typ>\<open>char\<close> per byte, \<^const>\<open>length\<close> counting bytes as Go's \<^verbatim>\<open>len\<close> does.

  The errors the program can see are the \<^verbatim>\<open>*strconv.NumError\<close> of \<^verbatim>\<open>Atoi\<close> and
  \<^verbatim>\<open>ParseBool\<close> (function name, offending text, cause), the \<^verbatim>\<open>errors.New\<close> value
  that \<^verbatim>\<open>getSchema\<close> builds for a bad data type (kept as the three arguments of its
  message: file name, record number, data type), and errors returned by the
  libraries the program calls (os, csv, bufio, json), kept by message.
\<close>

datatype strconv_err = ErrSyntax | ErrRange

datatype go_error =
    NumError string string strconv_err
  | InvalidDataType string nat string
  | LibraryError string

text \<open>
  A call of a Go function that returns \<^verbatim>\<open>(value, error)\<close> ends in one of three ways:
  it returns a value with a nil error, it returns a non-nil error, or it panics.
  Nothing in the program recovers from a panic.
\<close>

datatype runtime_panic =
    SliceBoundsOutOfRange
  | IndexOutOfRange
  | LogPanic go_error

datatype 'a outcome = Return 'a | Fail go_error | Panic runtime_panic

text \<open>
  The decoded record is a \<^verbatim>\<open>map[string]interface{}\<close>. An \<^verbatim>\<open>interface{}\<close> holds a value
  of any dynamic type; the three the program stores are kept apart from all others.
\<close>

datatype go_value = GoString string | GoInt int | GoBool bool | GoOther


section \<open>The standard-library functions the program calls\<close>

subsection \<open>\<^verbatim>\<open>strings.TrimSpace\<close>\<close>

text \<open>
  \<^verbatim>\<open>TrimSpace\<close> removes leading and trailing white space as defined by Unicode
  (\<^verbatim>\<open>unicode.IsSpace\<close>), decoding the bytes as UTF-8. White-space runes are the six
  ASCII ones, U+0085, U+00A0, U+1680, U+2000 to U+200A, U+2028, U+2029, U+202F,
  U+205F and U+3000; the list below holds their UTF-8 encodings. A byte sequence
  that is no valid encoding decodes to the replacement rune, which is no space.
\<close>

definition spaceRunes :: "string list" where
  "spaceRunes =
    [[CHR 0x09], [CHR 0x0A], [CHR 0x0B], [CHR 0x0C], [CHR 0x0D], [CHR 0x20],
     [CHR 0xC2, CHR 0x85], [CHR 0xC2, CHR 0xA0],
     [CHR 0xE1, CHR 0x9A, CHR 0x80],
     [CHR 0xE2, CHR 0x80, CHR 0x80], [CHR 0xE2, CHR 0x80, CHR 0x81],
     [CHR 0xE2, CHR 0x80, CHR 0x82], [CHR 0xE2, CHR 0x80, CHR 0x83],
     [CHR 0xE2, CHR 0x80, CHR 0x84], [CHR 0xE2, CHR 0x80, CHR 0x85],
     [CHR 0xE2, CHR 0x80, CHR 0x86], [CHR 0xE2, CHR 0x80, CHR 0x87],
     [CHR 0xE2, CHR 0x80, CHR 0x88], [CHR 0xE2, CHR 0x80, CHR 0x89],
     [CHR 0xE2, CHR 0x80, CHR 0x8A],
     [CHR 0xE2, CHR 0x80, CHR 0xA8], [CHR 0xE2, CHR 0x80, CHR 0xA9],
     [CHR 0xE2, CHR 0x80, CHR 0xAF],
     [CHR 0xE2, CHR 0x81, CHR 0x9F],
     [CHR 0xE3, CHR 0x80, CHR 0x80]]"

definition leadingRune :: "string list \<Rightarrow> string \<Rightarrow> string option" where
  "leadingRune runes s = find (\<lambda>r. r \<noteq> [] \<and> take (length r) s = r) runes"

function TrimLeftRunes :: "string list \<Rightarrow> string \<Rightarrow> string" where
  "TrimLeftRunes runes s =
     (case leadingRune runes s of
        None \<Rightarrow> s
      | Some r \<Rightarrow> TrimLeftRunes runes (drop (length r) s))"
  by pat_completeness auto
termination
proof (relation "measure (\<lambda>(runes, s). length s)")
  show "wf (measure (\<lambda>(runes, s). length s))" by simp
next
  fix runes s r
  assume "leadingRune runes s = Some r"
  then have "r \<noteq> []" and "take (length r) s = r"
    by (auto simp: leadingRune_def find_Some_iff)
  then have "s \<noteq> []" by auto
  with \<open>r \<noteq> []\<close> show "((runes, drop (length r) s), (runes, s)) \<in> measure (\<lambda>(runes, s). length s)"
    by simp
qed

text \<open>
  Trailing space is found by decoding the last rune; a white-space encoding at the
  end of the bytes is always decoded as that rune, so trimming on the right is
  trimming the reversed bytes of the reversed encodings.
\<close>

definition TrimSpace :: "string \<Rightarrow> string" where
  "TrimSpace s =
     rev (TrimLeftRunes (map rev spaceRunes) (rev (TrimLeftRunes spaceRunes s)))"

subsection \<open>\<^verbatim>\<open>strconv.ParseBool\<close>\<close>

definition ParseBool :: "string \<Rightarrow> go_error + bool" where
  "ParseBool str =
     (if str \<in> set [''1'', ''t'', ''T'', ''TRUE'', ''true'', ''True''] then Inr True
      else if str \<in> set [''0'', ''f'', ''F'', ''FALSE'', ''false'', ''False''] then Inr False
      else Inl (NumError ''ParseBool'' str ErrSyntax))"

subsection \<open>\<^verbatim>\<open>strconv.Atoi\<close>\<close>

text \<open>
  \<^verbatim>\<open>Atoi\<close> reads an optional sign and decimal digits into an \<^verbatim>\<open>int\<close>, which is 64 bits
  wide on the platforms the program is built for. The digits are accumulated as an
  unsigned 64-bit number; the first byte that is no digit is a syntax error, an
  accumulator beyond \<open>2^64 - 1\<close> is a range error, whichever comes first. The signed
  result must lie in \<open>[-2^63, 2^63 - 1]\<close>. (The fast path that Go takes for short
  inputs computes the same result.)
\<close>

definition isDigit :: "char \<Rightarrow> bool" where
  "isDigit c \<longleftrightarrow> 48 \<le> (of_char c :: nat) \<and> (of_char c :: nat) \<le> 57"

definition digitVal :: "char \<Rightarrow> int" where
  "digitVal c = int (of_char c) - 48"

fun parseDigits :: "int \<Rightarrow> string \<Rightarrow> strconv_err + int" where
  "parseDigits n [] = Inr n"
| "parseDigits n (c # cs) =
     (if \<not> isDigit c then Inl ErrSyntax
      else if n * 10 + digitVal c > 2 ^ 64 - 1 then Inl ErrRange
      else parseDigits (n * 10 + digitVal c) cs)"

definition Atoi :: "string \<Rightarrow> go_error + int" where
  "Atoi s =
     (case s of
        [] \<Rightarrow> Inl (NumError ''Atoi'' s ErrSyntax)
      | c # cs \<Rightarrow>
          let neg = (c = CHR ''-'');
              digits = (if c = CHR ''-'' \<or> c = CHR ''+'' then cs else s)
          in if digits = [] then Inl (NumError ''Atoi'' s ErrSyntax)
             else (case parseDigits 0 digits of
                     Inl cause \<Rightarrow> Inl (NumError ''Atoi'' s cause)
                   | Inr un \<Rightarrow>
                       if \<not> neg \<and> un \<ge> 2 ^ 63 then Inl (NumError ''Atoi'' s ErrRange)
                       else if neg \<and> un > 2 ^ 63 then Inl (NumError ''Atoi'' s ErrRange)
                       else Inr (if neg then - un else un)))"

subsection \<open>\<^verbatim>\<open>strings.LastIndex\<close> with a one-byte separator\<close>

text \<open>
  \<^verbatim>\<open>strings.LastIndex(s, ".")\<close> is the index of the last byte of \<open>s\<close> equal to the
  separator, or \<open>-1\<close> when there is none.
\<close>

fun LastIndexByte :: "string \<Rightarrow> char \<Rightarrow> int" where
  "LastIndexByte [] c = - 1"
| "LastIndexByte (x # xs) c =
     (let later = LastIndexByte xs c
      in if later \<noteq> - 1 then later + 1 else if x = c then 0 else - 1)"

subsection \<open>Slicing a string\<close>

text \<open>
  \<^verbatim>\<open>s[lo:hi]\<close> panics unless \<open>0 \<le> lo \<le> hi \<le> len(s)\<close>. The bounds are Go \<^verbatim>\<open>int\<close>s; here
  they are unbounded integers. In \<^verbatim>\<open>getRecordJson\<close> the lower bound is between 0 and
  the length of the line, so a sum \<open>lo + width\<close> that would wrap around in 64 bits
  is negative after wrapping and above the length before: the slice panics either
  way.
\<close>

definition slice :: "string \<Rightarrow> int \<Rightarrow> int \<Rightarrow> string option" where
  "slice s lo hi =
     (if 0 \<le> lo \<and> lo \<le> hi \<and> hi \<le> int (length s)
      then Some (take (nat (hi - lo)) (drop (nat lo) s))
      else None)"

section \<open>The program\<close>

definition CSV_NAME_INDEX :: nat where "CSV_NAME_INDEX = 0"
definition CSV_WIDTH_INDEX :: nat where "CSV_WIDTH_INDEX = 1"
definition CSV_DATA_TYPE_INDEX :: nat where "CSV_DATA_TYPE_INDEX = 2"

definition DATA_TYPE_TEXT :: string where "DATA_TYPE_TEXT = ''TEXT''"
definition DATA_TYPE_INTEGER :: string where "DATA_TYPE_INTEGER = ''INTEGER''"
definition DATA_TYPE_BOOLEAN :: string where "DATA_TYPE_BOOLEAN = ''BOOLEAN''"

record Field =
  Name :: string
  Width :: int
  Type :: string

subsection \<open>\<^verbatim>\<open>getRecordJson\<close>\<close>

text \<open>
  The loop of \<^verbatim>\<open>getRecordJson\<close> over the schema, with its two variables
  \<^verbatim>\<open>startIndex\<close> and \<^verbatim>\<open>data\<close> as arguments. A field whose type is none of the three
  constants matches no case of the \<^verbatim>\<open>switch\<close>: nothing is stored and the index still
  advances.
\<close>

fun decodeFields ::
  "string \<Rightarrow> Field list \<Rightarrow> int \<Rightarrow> (string \<rightharpoonup> go_value) \<Rightarrow> (string \<rightharpoonup> go_value) outcome"
where
  "decodeFields dataRecord [] startIndex data = Return data"
| "decodeFields dataRecord (field # schema) startIndex data =
     (case slice dataRecord startIndex (startIndex + Width field) of
        None \<Rightarrow> Panic SliceBoundsOutOfRange
      | Some sub \<Rightarrow>
          let fieldValue = TrimSpace sub
          in if Type field = DATA_TYPE_BOOLEAN then
               (case ParseBool fieldValue of
                  Inl boolErr \<Rightarrow> Fail boolErr
                | Inr boolVal \<Rightarrow>
                    decodeFields dataRecord schema (startIndex + Width field)
                      (data(Name field \<mapsto> GoBool boolVal)))
             else if Type field = DATA_TYPE_INTEGER then
               (case Atoi fieldValue of
                  Inl intErr \<Rightarrow> Fail intErr
                | Inr intVal \<Rightarrow>
                    decodeFields dataRecord schema (startIndex + Width field)
                      (data(Name field \<mapsto> GoInt intVal)))
             else if Type field = DATA_TYPE_TEXT then
               decodeFields dataRecord schema (startIndex + Width field)
                 (data(Name field \<mapsto> GoString fieldValue))
             else decodeFields dataRecord schema (startIndex + Width field) data)"

text \<open>
  \<^verbatim>\<open>json.Marshal\<close> is the library's; it is the parameter \<open>marshal\<close>. Its error, if
  any, is returned to the caller like the parse errors.
\<close>

definition getRecordJson ::
  "((string \<rightharpoonup> go_value) \<Rightarrow> go_error + string) \<Rightarrow> string \<Rightarrow> Field list \<Rightarrow> string outcome"
where
  "getRecordJson marshal dataRecord schema =
     (case decodeFields dataRecord schema 0 Map.empty of
        Return data \<Rightarrow>
          (case marshal data of
             Inl jsonErr \<Rightarrow> Fail jsonErr
           | Inr jsonData \<Rightarrow> Return jsonData)
      | Fail err \<Rightarrow> Fail err
      | Panic p \<Rightarrow> Panic p)"

subsection \<open>Files and libraries\<close>

text \<open>
  The files and the JSON encoder the program meets: the names \<^verbatim>\<open>ioutil.ReadDir\<close>
  lists in the schema directory (or its error), what opening a path and reading it
  with \<^verbatim>\<open>csv.Reader.ReadAll\<close> gives (the rows, or the error of either step), what
  opening a path and scanning it line by line gives (the error of \<^verbatim>\<open>os.Open\<close>, or the
  lines read and the scanner's error if any), and \<^verbatim>\<open>json.Marshal\<close>.
\<close>

record environment =
  readDir :: "go_error + string list"
  readCsv :: "string \<Rightarrow> go_error + string list list"
  readLines :: "string \<Rightarrow> go_error + string list \<times> go_error option"
  jsonMarshal :: "(string \<rightharpoonup> go_value) \<Rightarrow> go_error + string"

subsection \<open>\<^verbatim>\<open>getSchemaFilenames\<close>\<close>

definition getSchemaFilenames :: "environment \<Rightarrow> go_error + string list" where
  "getSchemaFilenames env =
     (case readDir env of Inl err \<Rightarrow> Inl err | Inr fileNames \<Rightarrow> Inr fileNames)"

subsection \<open>\<^verbatim>\<open>getSchema\<close>\<close>

text \<open>
  The loop of \<^verbatim>\<open>getSchema\<close> over the CSV records: \<open>i\<close> is the loop index and
  \<open>fieldList\<close> the slice \<^verbatim>\<open>fields\<close> allocated before the loop, one zero \<^verbatim>\<open>Field\<close> per record.
  Indexing a record that has too few columns panics. The slice has one element per
  record, so the store at index \<open>i\<close> is always in range.
\<close>

definition zeroField :: Field where
  "zeroField = \<lparr>Name = [], Width = 0, Type = []\<rparr>"

fun parseRecords :: "string \<Rightarrow> nat \<Rightarrow> string list list \<Rightarrow> Field list \<Rightarrow> Field list outcome" where
  "parseRecords fileName i [] fieldList = Return fieldList"
| "parseRecords fileName i (csvRecord # records) fieldList =
     (if length csvRecord \<le> CSV_WIDTH_INDEX then Panic IndexOutOfRange
      else
        (case Atoi (TrimSpace (csvRecord ! CSV_WIDTH_INDEX)) of
           Inl err \<Rightarrow> Fail err
         | Inr width \<Rightarrow>
             if length csvRecord \<le> CSV_DATA_TYPE_INDEX then Panic IndexOutOfRange
             else
               let dataType = csvRecord ! CSV_DATA_TYPE_INDEX
               in if dataType \<noteq> DATA_TYPE_BOOLEAN \<and> dataType \<noteq> DATA_TYPE_INTEGER
                     \<and> dataType \<noteq> DATA_TYPE_TEXT
                  then Fail (InvalidDataType fileName (i + 1) dataType)
                  else parseRecords fileName (i + 1) records
                         (fieldList[i := \<lparr>Name = csvRecord ! CSV_NAME_INDEX, Width = width,
                                          Type = dataType\<rparr>])))"

definition getSchemaRecords :: "string \<Rightarrow> string list list \<Rightarrow> Field list outcome" where
  "getSchemaRecords fileName records =
     parseRecords fileName 0 records (replicate (length records) zeroField)"

definition getSchema :: "environment \<Rightarrow> string \<Rightarrow> Field list outcome" where
  "getSchema env fileName =
     (case readCsv env (''schemas/'' @ fileName) of
        Inl err \<Rightarrow> Fail err
      | Inr records \<Rightarrow> getSchemaRecords fileName records)"

subsection \<open>\<^verbatim>\<open>getData\<close>\<close>

definition getData :: "environment \<Rightarrow> string \<Rightarrow> go_error + string list" where
  "getData env fileName =
     (case readLines env (''data/'' @ fileName) of
        Inl openErr \<Rightarrow> Inl openErr
      | Inr (records, Some readErr) \<Rightarrow> Inl readErr
      | Inr (records, None) \<Rightarrow> Inr records)"

subsection \<open>\<^verbatim>\<open>main\<close>\<close>

text \<open>
  What a run does that can be seen from outside: the lines \<^verbatim>\<open>main\<close> itself logs, the
  data files it asks \<^verbatim>\<open>getData\<close> for, and the documents it hands to \<^verbatim>\<open>postRecord\<close>.
  \<^verbatim>\<open>postRecord\<close> logs the answer or the transport error and returns nothing, so it
  has no part in what \<^verbatim>\<open>main\<close> does next. A run ends normally (\<open>None\<close>) or with the
  panic that stopped it.
\<close>

datatype event =
    SkippingSchemaFile string
  | NoDotInFilename string
  | GetData string
  | SkippingDataFile string
  | SkippingDataRecord string
  | PostRecord string

type_synonym run = "event list \<times> runtime_panic option"

fun processRecords ::
  "((string \<rightharpoonup> go_value) \<Rightarrow> go_error + string) \<Rightarrow> Field list \<Rightarrow> string list \<Rightarrow> run"
where
  "processRecords marshal schema [] = ([], None)"
| "processRecords marshal schema (dataRecord # dataRecords) =
     (case getRecordJson marshal dataRecord schema of
        Panic p \<Rightarrow> ([], Some p)
      | Fail jsonErr \<Rightarrow>
          (case processRecords marshal schema dataRecords of
             (events, p) \<Rightarrow> (SkippingDataRecord dataRecord # events, p))
      | Return recordJson \<Rightarrow>
          (case processRecords marshal schema dataRecords of
             (events, p) \<Rightarrow> (PostRecord recordJson # events, p)))"

definition processSchemaFile :: "environment \<Rightarrow> string \<Rightarrow> run" where
  "processSchemaFile env fileName =
     (case getSchema env fileName of
        Panic p \<Rightarrow> ([], Some p)
      | Fail schemaErr \<Rightarrow> ([SkippingSchemaFile fileName], None)
      | Return schema \<Rightarrow>
          let dotIndex = LastIndexByte fileName (CHR ''.'')
          in if dotIndex = - 1 then ([NoDotInFilename fileName], None)
             else
               let dataFileName = take (nat dotIndex) fileName @ ''.txt''
               in (case getData env dataFileName of
                     Inl dataErr \<Rightarrow> ([GetData dataFileName, SkippingDataFile fileName], None)
                   | Inr dataRecords \<Rightarrow>
                       (case processRecords (jsonMarshal env) schema dataRecords of
                          (events, p) \<Rightarrow> (GetData dataFileName # events, p))))"

fun processSchemaFiles :: "environment \<Rightarrow> string list \<Rightarrow> run" where
  "processSchemaFiles env [] = ([], None)"
| "processSchemaFiles env (fileName # fileNames) =
     (case processSchemaFile env fileName of
        (events, Some p) \<Rightarrow> (events, Some p)
      | (events, None) \<Rightarrow>
          (case processSchemaFiles env fileNames of
             (later, p) \<Rightarrow> (events @ later, p)))"

definition main :: "environment \<Rightarrow> run" where
  "main env =
     (case getSchemaFilenames env of
        Inl err \<Rightarrow> ([], Some (LogPanic err))
      | Inr schemaFileNames \<Rightarrow> processSchemaFiles env schemaFileNames)"

section \<open>Notions of the specification\<close>

text \<open>
  The total width of a schema, the offset of its \<open>i\<close>-th field (the sum of the
  widths before it) and the trimmed text that field occupies in a line.
\<close>

definition totalWidth :: "Field list \<Rightarrow> int" where
  "totalWidth schema = sum_list (map Width schema)"

definition fieldOffset :: "Field list \<Rightarrow> nat \<Rightarrow> int" where
  "fieldOffset schema i = totalWidth (take i schema)"

definition textAt :: "string \<Rightarrow> int \<Rightarrow> int \<Rightarrow> string" where
  "textAt line offset width = TrimSpace (take (nat width) (drop (nat offset) line))"

definition fieldText :: "string \<Rightarrow> Field list \<Rightarrow> nat \<Rightarrow> string" where
  "fieldText line schema i = textAt line (fieldOffset schema i) (Width (schema ! i))"

text \<open>
  The byte ranges \<open>[offset, offset + width)\<close> of a line, field by field in schema
  order; there are none when a range does not lie inside the line.
\<close>

fun fieldRanges :: "string \<Rightarrow> Field list \<Rightarrow> int \<Rightarrow> string list option" where
  "fieldRanges line [] offset = Some []"
| "fieldRanges line (field # schema) offset =
     (case slice line offset (offset + Width field) of
        None \<Rightarrow> None
      | Some sub \<Rightarrow>
          (case fieldRanges line schema (offset + Width field) of
             None \<Rightarrow> None
           | Some subs \<Rightarrow> Some (sub # subs)))"

text \<open>
  The typed value a trimmed text stands for under a field type: a boolean, an
  integer, the text itself, or none when the text does not parse or the type is not
  one of the three.
\<close>

definition validDataType :: "string \<Rightarrow> bool" where
  "validDataType dataType \<longleftrightarrow>
     dataType = DATA_TYPE_TEXT \<or> dataType = DATA_TYPE_INTEGER \<or> dataType = DATA_TYPE_BOOLEAN"

definition typedValue :: "string \<Rightarrow> string \<Rightarrow> go_value option" where
  "typedValue dataType text =
     (if dataType = DATA_TYPE_BOOLEAN then
        (case ParseBool text of Inl err \<Rightarrow> None | Inr b \<Rightarrow> Some (GoBool b))
      else if dataType = DATA_TYPE_INTEGER then
        (case Atoi text of Inl err \<Rightarrow> None | Inr n \<Rightarrow> Some (GoInt n))
      else if dataType = DATA_TYPE_TEXT then Some (GoString text)
      else None)"


text \<open>
  A schema row: what its width column parses to, whether the row passes both checks
  of the loader, and the field definition it stands for.
\<close>

definition widthColumn :: "string list \<Rightarrow> go_error + int" where
  "widthColumn csvRecord = Atoi (TrimSpace (csvRecord ! CSV_WIDTH_INDEX))"

definition rowOk :: "string list \<Rightarrow> bool" where
  "rowOk csvRecord \<longleftrightarrow>
     \<not> isl (widthColumn csvRecord) \<and> validDataType (csvRecord ! CSV_DATA_TYPE_INDEX)"

definition fieldOfRecord :: "string list \<Rightarrow> Field" where
  "fieldOfRecord csvRecord =
     \<lparr>Name = csvRecord ! CSV_NAME_INDEX,
      Width = (case widthColumn csvRecord of Inl err \<Rightarrow> 0 | Inr width \<Rightarrow> width),
      Type = csvRecord ! CSV_DATA_TYPE_INDEX\<rparr>"


section \<open>Evaluation\<close>

lemmas library_defs =
  slice_def TrimSpace_def spaceRunes_def leadingRune_def Atoi_def isDigit_def digitVal_def
  ParseBool_def

lemmas program_defs =
  DATA_TYPE_BOOLEAN_def DATA_TYPE_INTEGER_def DATA_TYPE_TEXT_def
  CSV_NAME_INDEX_def CSV_WIDTH_INDEX_def CSV_DATA_TYPE_INDEX_def
  getSchemaRecords_def zeroField_def getRecordJson_def Let_def

section \<open>Decoding reads a prefix of the line\<close>

lemma totalWidth_nonneg: "\<forall>f\<in>set schema. 0 \<le> Width f \<Longrightarrow> 0 \<le> totalWidth schema"
  by (induction schema) (auto simp: totalWidth_def)

lemma totalWidth_Cons: "totalWidth (f # fs) = Width f + totalWidth fs"
  by (simp add: totalWidth_def)

lemma slice_append: "hi \<le> int (length l) \<Longrightarrow> slice (l @ ext) lo hi = slice l lo hi"
  by (auto simp: slice_def)

lemma decodeFields_append:
  "0 \<le> start \<Longrightarrow> \<forall>f\<in>set schema. 0 \<le> Width f \<Longrightarrow>
   start + totalWidth schema \<le> int (length l) \<Longrightarrow>
   decodeFields (l @ ext) schema start data = decodeFields l schema start data"
proof (induction schema arbitrary: start data)
  case Nil
  then show ?case by simp
next
  case (Cons f fs)
  have rest: "0 \<le> totalWidth fs" using Cons.prems(2) by (simp add: totalWidth_nonneg)
  have w: "0 \<le> Width f" using Cons.prems(2) by simp
  have hi: "start + Width f \<le> int (length l)"
    using Cons.prems(3) rest by (simp add: totalWidth_Cons)
  have sl: "slice (l @ ext) start (start + Width f) = slice l start (start + Width f)"
    using hi by (rule slice_append)
  have ih: "\<And>d. decodeFields (l @ ext) fs (start + Width f) d = decodeFields l fs (start + Width f) d"
    using Cons.IH [of "start + Width f"] Cons.prems w by (simp add: totalWidth_Cons add.assoc)
  show ?case
    by (simp add: sl ih Let_def split: option.split sum.split)
qed

lemma decodeFields_Return_bounds:
  "decodeFields l schema start data = Return d \<Longrightarrow> 0 \<le> start \<Longrightarrow>
   start \<le> int (length l) \<Longrightarrow>
   (\<forall>f\<in>set schema. 0 \<le> Width f) \<and> start + totalWidth schema \<le> int (length l)"
proof (induction schema arbitrary: start data)
  case Nil
  then show ?case by (simp add: totalWidth_def)
next
  case (Cons f fs)
  from Cons.prems(1) obtain sub where sl: "slice l start (start + Width f) = Some sub"
    by (auto split: option.splits)
  then have w: "0 \<le> Width f" and hi: "start + Width f \<le> int (length l)"
    by (auto simp: slice_def split: if_splits)
  from Cons.prems(1) sl obtain d' where "decodeFields l fs (start + Width f) d' = Return d"
    by (auto simp: Let_def split: if_splits sum.splits)
  from Cons.IH [OF this] w hi Cons.prems(2)
  show ?case by (auto simp: totalWidth_Cons)
qed

lemma decodeFields_take:
  assumes "\<forall>f\<in>set schema. 0 \<le> Width f" and "totalWidth schema \<le> int (length l)"
  shows "decodeFields (take (nat (totalWidth schema)) l) schema 0 data = decodeFields l schema 0 data"
proof -
  let ?n = "nat (totalWidth schema)"
  have "0 + totalWidth schema \<le> int (length (take ?n l))"
    using assms totalWidth_nonneg [OF assms(1)] by simp
  from decodeFields_append [OF _ assms(1) this, of "drop ?n l" data]
  show ?thesis by simp
qed

lemma fieldRanges_Some:
  "fieldRanges line schema start = Some rs \<Longrightarrow> 0 \<le> start \<Longrightarrow>
   start \<le> int (length line) \<Longrightarrow>
   (\<forall>f\<in>set schema. 0 \<le> Width f) \<and> start + totalWidth schema \<le> int (length line) \<and>
   concat rs = take (nat (totalWidth schema)) (drop (nat start) line)"
proof (induction schema arbitrary: start rs)
  case Nil
  then show ?case by (simp add: totalWidth_def)
next
  case (Cons f fs)
  from Cons.prems(1) obtain sub subs where
    sl: "slice line start (start + Width f) = Some sub" and
    rest: "fieldRanges line fs (start + Width f) = Some subs" and
    rs: "rs = sub # subs"
    by (auto split: option.splits)
  from sl have w: "0 \<le> Width f" and hi: "start + Width f \<le> int (length line)"
    and sub: "sub = take (nat (Width f)) (drop (nat start) line)"
    by (auto simp: slice_def split: if_splits)
  from Cons.IH [OF rest] w hi Cons.prems(2)
  have ih: "\<forall>f\<in>set fs. 0 \<le> Width f" "start + Width f + totalWidth fs \<le> int (length line)"
    "concat subs = take (nat (totalWidth fs)) (drop (nat (start + Width f)) line)"
    by auto
  have tw: "0 \<le> totalWidth fs" using ih(1) by (rule totalWidth_nonneg)
  have "take (nat (Width f + totalWidth fs)) (drop (nat start) line)
        = take (nat (Width f)) (drop (nat start) line)
          @ take (nat (totalWidth fs)) (drop (nat (Width f)) (drop (nat start) line))"
    using w tw by (simp add: nat_add_distrib take_add)
  moreover have "drop (nat (Width f)) (drop (nat start) line) = drop (nat (start + Width f)) line"
    using w Cons.prems(2) by (simp add: nat_add_distrib add.commute)
  ultimately show ?case
    using w ih rs sub by (simp add: totalWidth_Cons add.assoc)
qed

lemma fieldRanges_defined:
  "0 \<le> start \<Longrightarrow> \<forall>f\<in>set schema. 0 \<le> Width f \<Longrightarrow>
   start + totalWidth schema \<le> int (length line) \<Longrightarrow> fieldRanges line schema start \<noteq> None"
proof (induction schema arbitrary: start)
  case Nil
  then show ?case by simp
next
  case (Cons f fs)
  have tw: "0 \<le> totalWidth fs" using Cons.prems(2) by (simp add: totalWidth_nonneg)
  have "slice line start (start + Width f) \<noteq> None"
    using Cons.prems tw by (simp add: slice_def totalWidth_Cons)
  moreover have "fieldRanges line fs (start + Width f) \<noteq> None"
    using Cons.IH [of "start + Width f"] Cons.prems by (simp add: totalWidth_Cons add.assoc)
  ultimately show ?case by (auto split: option.splits)
qed



section \<open>Decoding the concatenated field ranges\<close>

text \<open>
  Claim C3. Take a schema returned by a successful load and a line at least as
  long as the total width. The line's field ranges \<open>[offset, offset + width)\<close> all
  exist exactly when no width of the schema is negative; and whenever they exist,
  decoding their concatenation with the same schema gives the same outcome as
  decoding the line: the same typed values, or the same error.
\<close>

theorem decode_of_field_ranges:
  assumes "getSchemaRecords fileName records = Return schema"
    and "totalWidth schema \<le> int (length line)"
  shows "(fieldRanges line schema 0 \<noteq> None \<longleftrightarrow> (\<forall>f\<in>set schema. 0 \<le> Width f))
       \<and> (\<forall>ranges. fieldRanges line schema 0 = Some ranges \<longrightarrow>
            decodeFields (concat ranges) schema 0 Map.empty = decodeFields line schema 0 Map.empty
          \<and> getRecordJson marshal (concat ranges) schema = getRecordJson marshal line schema)"
proof -
  have defined: "fieldRanges line schema 0 \<noteq> None" if "\<forall>f\<in>set schema. 0 \<le> Width f"
    using fieldRanges_defined [of 0 schema line] that assms(2) by simp
  have nonneg: "\<forall>f\<in>set schema. 0 \<le> Width f" if "fieldRanges line schema 0 = Some ranges" for ranges
    using fieldRanges_Some [OF that] by simp
  have same: "decodeFields (concat ranges) schema 0 Map.empty = decodeFields line schema 0 Map.empty"
    if "fieldRanges line schema 0 = Some ranges" for ranges
  proof -
    from fieldRanges_Some [OF that]
    have w: "\<forall>f\<in>set schema. 0 \<le> Width f"
      and c: "concat ranges = take (nat (totalWidth schema)) line"
      by simp_all
    show ?thesis
      unfolding c using decodeFields_take [OF w assms(2)] by simp
  qed
  from defined nonneg same show ?thesis
    by (auto simp: getRecordJson_def)
qed

text \<open>The schema loaded from two rows, and a line with bytes after the last field.\<close>

theorem decode_of_field_ranges_witness:
  "getSchemaRecords ''measures.csv'' [[''id'', ''3'', ''INTEGER''], [''flag'', '' 1'', ''BOOLEAN'']]
     = Return [\<lparr>Name = ''id'', Width = 3, Type = ''INTEGER''\<rparr>,
               \<lparr>Name = ''flag'', Width = 1, Type = ''BOOLEAN''\<rparr>]
   \<and> totalWidth [\<lparr>Name = ''id'', Width = 3, Type = ''INTEGER''\<rparr>,
                 \<lparr>Name = ''flag'', Width = 1, Type = ''BOOLEAN''\<rparr>] \<le> int (length '' 42T rest'')
   \<and> fieldRanges '' 42T rest'' [\<lparr>Name = ''id'', Width = 3, Type = ''INTEGER''\<rparr>,
                 \<lparr>Name = ''flag'', Width = 1, Type = ''BOOLEAN''\<rparr>] 0 = Some ['' 42'', ''T'']
   \<and> decodeFields (concat ['' 42'', ''T'']) [\<lparr>Name = ''id'', Width = 3, Type = ''INTEGER''\<rparr>,
                 \<lparr>Name = ''flag'', Width = 1, Type = ''BOOLEAN''\<rparr>] 0 Map.empty
     = decodeFields '' 42T rest'' [\<lparr>Name = ''id'', Width = 3, Type = ''INTEGER''\<rparr>,
                 \<lparr>Name = ''flag'', Width = 1, Type = ''BOOLEAN''\<rparr>] 0 Map.empty
   \<and> decodeFields '' 42T rest'' [\<lparr>Name = ''id'', Width = 3, Type = ''INTEGER''\<rparr>,
                 \<lparr>Name = ''flag'', Width = 1, Type = ''BOOLEAN''\<rparr>] 0 Map.empty
     = Return [''id'' \<mapsto> GoInt 42, ''flag'' \<mapsto> GoBool True]"
proof -
  let ?schema = "[\<lparr>Name = ''id'', Width = 3, Type = ''INTEGER''\<rparr>,
                  \<lparr>Name = ''flag'', Width = 1, Type = ''BOOLEAN''\<rparr>]"
  have h1: "getSchemaRecords ''measures.csv'' [[''id'', ''3'', ''INTEGER''], [''flag'', '' 1'', ''BOOLEAN'']]
            = Return ?schema"
    by (simp add: library_defs program_defs)
  have h2: "totalWidth ?schema \<le> int (length '' 42T rest'')" by (simp add: totalWidth_def)
  have r: "fieldRanges '' 42T rest'' ?schema 0 = Some ['' 42'', ''T'']"
    by (simp add: slice_def)
  have d: "decodeFields '' 42T rest'' ?schema 0 Map.empty
           = Return [''id'' \<mapsto> GoInt 42, ''flag'' \<mapsto> GoBool True]"
    by (simp add: library_defs program_defs)
  from decode_of_field_ranges [OF h1 h2] r
  have "decodeFields (concat ['' 42'', ''T'']) ?schema 0 Map.empty
        = decodeFields '' 42T rest'' ?schema 0 Map.empty"
    by blast
  with h1 h2 r d show ?thesis by simp
qed

section \<open>The worked example of the specification\<close>

text \<open>
  Claim C4. With the schema of an INTEGER field \<open>id\<close> of width 3 and a BOOLEAN field
  \<open>flag\<close> of width 1, the line \<open>042T\<close> decodes to the record that maps \<open>id\<close> to the
  integer 42 and \<open>flag\<close> to the boolean true: \<open>042\<close> is trimmed and parsed by
  \<^const>\<open>Atoi\<close>, \<open>T\<close> is accepted by \<^const>\<open>ParseBool\<close>. \<^const>\<open>getRecordJson\<close> returns what the
  JSON encoder makes of that record.
\<close>

theorem decode_042T:
  "TrimSpace ''042'' = ''042'' \<and> Atoi ''042'' = Inr 42
   \<and> TrimSpace ''T'' = ''T'' \<and> ParseBool ''T'' = Inr True
   \<and> decodeFields ''042T'' [\<lparr>Name = ''id'', Width = 3, Type = DATA_TYPE_INTEGER\<rparr>,
                             \<lparr>Name = ''flag'', Width = 1, Type = DATA_TYPE_BOOLEAN\<rparr>] 0 Map.empty
       = Return [''id'' \<mapsto> GoInt 42, ''flag'' \<mapsto> GoBool True]
   \<and> getRecordJson marshal ''042T'' [\<lparr>Name = ''id'', Width = 3, Type = DATA_TYPE_INTEGER\<rparr>,
                             \<lparr>Name = ''flag'', Width = 1, Type = DATA_TYPE_BOOLEAN\<rparr>]
       = (case marshal [''id'' \<mapsto> GoInt 42, ''flag'' \<mapsto> GoBool True] of
            Inl jsonErr \<Rightarrow> Fail jsonErr | Inr jsonData \<Rightarrow> Return jsonData)"
  by (simp add: library_defs program_defs)

section \<open>Lines shorter than the schema\<close>

text \<open>A line shorter than the total width never decodes to a record.\<close>

lemma short_line_no_record:
  "int (length line) < totalWidth schema \<Longrightarrow> decodeFields line schema 0 data \<noteq> Return d"
  using decodeFields_Return_bounds [of line schema 0 data d] by auto

text \<open>
  Claim C1. With the same schema, decoding the line \<open>04\<close> does not return an error:
  the slice for the first field is out of range, which is a panic. The record loop
  of \<^verbatim>\<open>main\<close> therefore does not log and skip the line; it stops there, and the
  well-formed line after it is never posted.
\<close>

theorem short_line_panics:
  "getRecordJson marshal ''04'' [\<lparr>Name = ''id'', Width = 3, Type = DATA_TYPE_INTEGER\<rparr>,
                                 \<lparr>Name = ''flag'', Width = 1, Type = DATA_TYPE_BOOLEAN\<rparr>]
     = Panic SliceBoundsOutOfRange
   \<and> processRecords marshal [\<lparr>Name = ''id'', Width = 3, Type = DATA_TYPE_INTEGER\<rparr>,
                                 \<lparr>Name = ''flag'', Width = 1, Type = DATA_TYPE_BOOLEAN\<rparr>]
        [''04'', ''042T''] = ([], Some SliceBoundsOutOfRange)"
  by (simp add: library_defs program_defs)

section \<open>The schema loader\<close>


lemma parseDigits_nonneg: "parseDigits n ds = Inr m \<Longrightarrow> 0 \<le> n \<Longrightarrow> 0 \<le> m"
proof (induction ds arbitrary: n)
  case Nil
  then show ?case by simp
next
  case (Cons c cs)
  from Cons.prems(1) have d: "isDigit c" by (auto split: if_splits)
  then have "0 \<le> digitVal c" by (simp add: isDigit_def digitVal_def)
  with Cons.prems have "0 \<le> n * 10 + digitVal c" by simp
  moreover from Cons.prems(1) d have "parseDigits (n * 10 + digitVal c) cs = Inr m"
    by (auto split: if_splits)
  ultimately show ?case using Cons.IH by blast
qed

lemma Atoi_range: "Atoi s = Inr n \<Longrightarrow> - (2 ^ 63) \<le> n \<and> n \<le> 2 ^ 63 - 1"
proof -
  assume a: "Atoi s = Inr n"
  then obtain ds un where pd: "parseDigits 0 ds = Inr un"
    and n: "n = un \<and> un < 2 ^ 63 \<or> n = - un \<and> un \<le> 2 ^ 63"
    by (auto simp: Atoi_def Let_def simp del: parseDigits.simps
          split: list.splits if_splits sum.splits)
  from parseDigits_nonneg [OF pd] have "0 \<le> un" by simp
  with n show ?thesis by auto
qed

lemma parseRecords_ok:
  "\<forall>r\<in>set records. 3 \<le> length r \<and> rowOk r \<Longrightarrow> i + length records \<le> length fieldList \<Longrightarrow>
   parseRecords fileName i records fieldList
     = Return (take i fieldList @ map fieldOfRecord records @ drop (i + length records) fieldList)"
proof (induction records arbitrary: i fieldList)
  case Nil
  then show ?case by simp
next
  case (Cons r rs)
  let ?f = "fieldOfRecord r"
  from Cons.prems(1) have len: "3 \<le> length r" and ok: "rowOk r" by simp_all
  from ok obtain width where w: "Atoi (TrimSpace (r ! CSV_WIDTH_INDEX)) = Inr width"
    by (cases "widthColumn r") (auto simp: rowOk_def widthColumn_def)
  from ok have ty: "validDataType (r ! CSV_DATA_TYPE_INDEX)" by (simp add: rowOk_def)
  have f: "?f = \<lparr>Name = r ! CSV_NAME_INDEX, Width = width, Type = r ! CSV_DATA_TYPE_INDEX\<rparr>"
    using w by (simp add: fieldOfRecord_def widthColumn_def)
  have step: "parseRecords fileName i (r # rs) fieldList
              = parseRecords fileName (i + 1) rs (fieldList[i := ?f])"
    using len w ty
    by (auto simp: f Let_def validDataType_def CSV_WIDTH_INDEX_def CSV_DATA_TYPE_INDEX_def)
  have i: "i < length fieldList" using Cons.prems(2) by simp
  have "parseRecords fileName (i + 1) rs (fieldList[i := ?f])
        = Return (take (i + 1) (fieldList[i := ?f]) @ map fieldOfRecord rs
                  @ drop (i + 1 + length rs) (fieldList[i := ?f]))"
    using Cons.IH [of "i + 1" "fieldList[i := ?f]"] Cons.prems by simp
  also have "take (i + 1) (fieldList[i := ?f]) = take i fieldList @ [?f]"
    using i by (simp add: take_Suc_conv_app_nth)
  also have "drop (i + 1 + length rs) (fieldList[i := ?f]) = drop (i + length (r # rs)) fieldList"
    by simp
  finally show ?case using step by simp
qed


lemma parseRecords_Return_rows:
  "parseRecords fileName i records fieldList = Return schema \<Longrightarrow>
   \<forall>r\<in>set records. 3 \<le> length r \<and> rowOk r"
proof (induction records arbitrary: i fieldList)
  case Nil
  then show ?case by simp
next
  case (Cons r rs)
  from Cons.prems have l1: "\<not> length r \<le> CSV_WIDTH_INDEX"
    by (auto split: if_splits)
  with Cons.prems obtain width where w: "Atoi (TrimSpace (r ! CSV_WIDTH_INDEX)) = Inr width"
    by (auto split: sum.splits)
  with Cons.prems l1 have l2: "\<not> length r \<le> CSV_DATA_TYPE_INDEX"
    by (auto split: if_splits)
  with Cons.prems l1 w have ty: "validDataType (r ! CSV_DATA_TYPE_INDEX)"
    by (auto simp: Let_def validDataType_def split: if_splits)
  with Cons.prems l1 l2 w obtain fl where "parseRecords fileName (i + 1) rs fl = Return schema"
    by (auto simp: Let_def validDataType_def split: if_splits)
  from Cons.IH [OF this] l2 w ty show ?case
    by (auto simp: rowOk_def widthColumn_def CSV_DATA_TYPE_INDEX_def)
qed

lemma getSchemaRecords_ok:
  "\<forall>r\<in>set records. 3 \<le> length r \<and> rowOk r \<Longrightarrow>
   getSchemaRecords fileName records = Return (map fieldOfRecord records)"
  using parseRecords_ok [of records 0 "replicate (length records) zeroField" fileName]
  by (simp add: getSchemaRecords_def)



text \<open>
  Claim C6 as stated fails: rows whose width column reads \<open>0\<close> and \<open>-3\<close> are loaded,
  and the schema returned has fields of width 0 and -3.
\<close>

theorem getSchema_accepts_nonpositive_width:
  "getSchema \<lparr>readDir = Inr [''m.csv''],
              readCsv = (\<lambda>path. Inr [[''a'', ''0'', ''TEXT''], [''b'', ''-3'', ''TEXT'']]),
              readLines = (\<lambda>path. Inr ([], None)),
              jsonMarshal = (\<lambda>data. Inr ''{}'')\<rparr> ''m.csv''
     = Return [\<lparr>Name = ''a'', Width = 0, Type = ''TEXT''\<rparr>,
               \<lparr>Name = ''b'', Width = - 3, Type = ''TEXT''\<rparr>]
   \<and> \<not> 0 < Width \<lparr>Name = ''a'', Width = 0, Type = ''TEXT''\<rparr>
   \<and> \<not> 0 < Width \<lparr>Name = ''b'', Width = - 3, Type = ''TEXT''\<rparr>"
  by (simp add: getSchema_def library_defs program_defs)

text \<open>
  Claim C6, amended. Every field of a schema returned by a successful load has as
  its width the integer that \<^const>\<open>Atoi\<close> reads from the trimmed width column of its
  row, a value between \<open>-2^63\<close> and \<open>2^63 - 1\<close>; the sign is not checked.
\<close>

theorem getSchema_width_is_parsed_column:
  assumes "getSchema env fileName = Return schema"
  shows "\<exists>records. readCsv env (''schemas/'' @ fileName) = Inr records
           \<and> length schema = length records
           \<and> (\<forall>i<length records.
                 widthColumn (records ! i) = Inr (Width (schema ! i))
               \<and> - (2 ^ 63) \<le> Width (schema ! i) \<and> Width (schema ! i) \<le> 2 ^ 63 - 1)"
proof -
  from assms obtain records where
    r: "readCsv env (''schemas/'' @ fileName) = Inr records" and
    p: "parseRecords fileName 0 records (replicate (length records) zeroField) = Return schema"
    by (auto simp: getSchema_def getSchemaRecords_def split: sum.splits)
  from parseRecords_Return_rows [OF p]
  have rows: "\<forall>r\<in>set records. 3 \<le> length r \<and> rowOk r" .
  from getSchemaRecords_ok [OF rows, of fileName] p
  have schema: "schema = map fieldOfRecord records"
    by (simp add: getSchemaRecords_def)
  have "widthColumn (records ! i) = Inr (Width (schema ! i))
        \<and> - (2 ^ 63) \<le> Width (schema ! i) \<and> Width (schema ! i) \<le> 2 ^ 63 - 1"
    if i: "i < length records" for i
  proof -
    from rows i have "rowOk (records ! i)" by simp
    then obtain width where w: "widthColumn (records ! i) = Inr width"
      by (cases "widthColumn (records ! i)") (auto simp: rowOk_def)
    then have "Width (schema ! i) = width"
      using i by (simp add: schema fieldOfRecord_def)
    moreover from w have "- (2 ^ 63) \<le> width \<and> width \<le> 2 ^ 63 - 1"
      unfolding widthColumn_def by (rule Atoi_range)
    ultimately show ?thesis using w by simp
  qed
  with r schema show ?thesis by auto
qed

text \<open>A row with a negative width, loaded as it is.\<close>

theorem getSchema_width_is_parsed_column_witness:
  "getSchema \<lparr>readDir = Inr [''m.csv''],
              readCsv = (\<lambda>path. Inr [[''gap'', '' -3 '', ''TEXT'']]),
              readLines = (\<lambda>path. Inr ([], None)),
              jsonMarshal = (\<lambda>data. Inr ''{}'')\<rparr> ''m.csv''
     = Return [\<lparr>Name = ''gap'', Width = - 3, Type = ''TEXT''\<rparr>]
   \<and> widthColumn [''gap'', '' -3 '', ''TEXT'']
       = Inr (Width \<lparr>Name = ''gap'', Width = - 3, Type = ''TEXT''\<rparr>)
   \<and> - (2 ^ 63) \<le> Width \<lparr>Name = ''gap'', Width = - 3, Type = ''TEXT''\<rparr>"
proof -
  let ?env = "\<lparr>readDir = Inr [''m.csv''],
               readCsv = (\<lambda>path. Inr [[''gap'', '' -3 '', ''TEXT'']]),
               readLines = (\<lambda>path. Inr ([], None)),
               jsonMarshal = (\<lambda>data. Inr ''{}'')\<rparr>"
  have h: "getSchema ?env ''m.csv'' = Return [\<lparr>Name = ''gap'', Width = - 3, Type = ''TEXT''\<rparr>]"
    by (simp add: getSchema_def library_defs program_defs)
  from getSchema_width_is_parsed_column [OF h]
  have "widthColumn ([[''gap'', '' -3 '', ''TEXT'']] ! 0)
          = Inr (Width ([\<lparr>Name = ''gap'', Width = - 3, Type = ''TEXT''\<rparr>] ! 0))
        \<and> - (2 ^ 63) \<le> Width ([\<lparr>Name = ''gap'', Width = - 3, Type = ''TEXT''\<rparr>] ! 0)"
    by auto
  with h show ?thesis by simp
qed

section \<open>The decoded record\<close>

lemma fieldOffset_0: "fieldOffset fs 0 = 0"
  by (simp add: fieldOffset_def totalWidth_def)

lemma fieldOffset_Suc: "fieldOffset (f # fs) (Suc i) = Width f + fieldOffset fs i"
  by (simp add: fieldOffset_def totalWidth_def)

lemma decodeFields_Cons:
  "decodeFields line (f # fs) start d0 =
     (if \<not> (0 \<le> start \<and> 0 \<le> Width f \<and> start + Width f \<le> int (length line))
      then Panic SliceBoundsOutOfRange
      else if Type f = DATA_TYPE_BOOLEAN then
        (case ParseBool (textAt line start (Width f)) of
           Inl err \<Rightarrow> Fail err
         | Inr b \<Rightarrow> decodeFields line fs (start + Width f) (d0(Name f \<mapsto> GoBool b)))
      else if Type f = DATA_TYPE_INTEGER then
        (case Atoi (textAt line start (Width f)) of
           Inl err \<Rightarrow> Fail err
         | Inr n \<Rightarrow> decodeFields line fs (start + Width f) (d0(Name f \<mapsto> GoInt n)))
      else if Type f = DATA_TYPE_TEXT then
        decodeFields line fs (start + Width f)
          (d0(Name f \<mapsto> GoString (textAt line start (Width f))))
      else decodeFields line fs (start + Width f) d0)"
  by (simp add: slice_def textAt_def Let_def)

lemma decodeFields_Cons_Return:
  assumes "decodeFields line (f # fs) start d0 = Return d" and "validDataType (Type f)"
  shows "\<exists>v. typedValue (Type f) (textAt line start (Width f)) = Some v
           \<and> decodeFields line fs (start + Width f) (d0(Name f \<mapsto> v)) = Return d"
  using assms unfolding decodeFields_Cons
  by (auto simp: typedValue_def validDataType_def split: if_splits sum.splits)

lemma decodeFields_entries:
  "decodeFields line fs start d0 = Return d \<Longrightarrow> distinct (map Name fs) \<Longrightarrow>
   \<forall>f\<in>set fs. validDataType (Type f) \<Longrightarrow>
   (\<forall>i<length fs.
      d (Name (fs ! i))
        = typedValue (Type (fs ! i)) (textAt line (start + fieldOffset fs i) (Width (fs ! i)))
      \<and> d (Name (fs ! i)) \<noteq> None)
   \<and> (\<forall>n. n \<notin> Name ` set fs \<longrightarrow> d n = d0 n)"
proof (induction fs arbitrary: start d0)
  case Nil
  then show ?case by simp
next
  case (Cons f fs)
  from Cons.prems(3) have vf: "validDataType (Type f)" by simp
  from decodeFields_Cons_Return [OF Cons.prems(1) vf] obtain v where
    v: "typedValue (Type f) (textAt line start (Width f)) = Some v" and
    rest: "decodeFields line fs (start + Width f) (d0(Name f \<mapsto> v)) = Return d"
    by blast
  from Cons.prems(2) have dist: "distinct (map Name fs)" and fresh: "Name f \<notin> Name ` set fs"
    by simp_all
  have "\<forall>f\<in>set fs. validDataType (Type f)" using Cons.prems(3) by simp
  note IH = Cons.IH [OF rest dist this]
  note ih = IH [THEN conjunct1] and other = IH [THEN conjunct2]
  from other fresh have head: "d (Name f) = Some v" by simp
  have entries: "d (Name ((f # fs) ! i))
          = typedValue (Type ((f # fs) ! i))
              (textAt line (start + fieldOffset (f # fs) i) (Width ((f # fs) ! i)))
        \<and> d (Name ((f # fs) ! i)) \<noteq> None" if "i < length (f # fs)" for i
  proof (cases i)
    case 0
    with head v show ?thesis by (simp add: fieldOffset_0)
  next
    case (Suc j)
    with that have "j < length fs" by simp
    with ih have a: "d (Name (fs ! j))
          = typedValue (Type (fs ! j))
              (textAt line (start + Width f + fieldOffset fs j) (Width (fs ! j)))"
      and b: "d (Name (fs ! j)) \<noteq> None"
      by blast+
    from a b show ?thesis by (simp add: Suc fieldOffset_Suc add.assoc)
  qed
  have "d n = d0 n" if "n \<notin> Name ` set (f # fs)" for n
    using that other by simp
  with entries show ?case by blast
qed



text \<open>
  Claim C7 as stated fails: two rows with the same name load into a schema of two
  fields, and a line decodes under it to a record with one entry, the value of the
  second field. (A field whose type is none of the three constants, which no loaded
  schema has, adds no entry at all.)
\<close>

theorem duplicate_names_one_entry:
  "getSchemaRecords ''m.csv'' [[''a'', ''1'', ''TEXT''], [''a'', ''1'', ''TEXT'']]
     = Return [\<lparr>Name = ''a'', Width = 1, Type = ''TEXT''\<rparr>,
               \<lparr>Name = ''a'', Width = 1, Type = ''TEXT''\<rparr>]
   \<and> decodeFields ''xy'' [\<lparr>Name = ''a'', Width = 1, Type = ''TEXT''\<rparr>,
                           \<lparr>Name = ''a'', Width = 1, Type = ''TEXT''\<rparr>] 0 Map.empty
       = Return [''a'' \<mapsto> GoString ''y'']
   \<and> card (dom [''a'' \<mapsto> GoString ''y'']) = 1
   \<and> length [\<lparr>Name = ''a'', Width = 1, Type = ''TEXT''\<rparr>,
              \<lparr>Name = ''a'', Width = 1, Type = ''TEXT''\<rparr>] = 2
   \<and> decodeFields ''x'' [\<lparr>Name = ''a'', Width = 1, Type = ''FLOAT''\<rparr>] 0 Map.empty
       = Return Map.empty"
  by (simp add: library_defs program_defs)

text \<open>
  Claim C7, amended. For every schema whose field names are pairwise distinct and
  whose types are among \<open>TEXT\<close>, \<open>INTEGER\<close>, \<open>BOOLEAN\<close>, and every line on which
  decoding succeeds, the decoded record has exactly one entry per field: its keys
  are the field names, their number is the number of fields, and each name is
  mapped to the typed value of the trimmed text at that field's offset.
\<close>

theorem decoded_record_entries:
  assumes "decodeFields line schema 0 Map.empty = Return data"
    and "distinct (map Name schema)"
    and "\<forall>f\<in>set schema. validDataType (Type f)"
  shows "card (dom data) = length schema
       \<and> dom data = Name ` set schema
       \<and> (\<forall>i<length schema.
             data (Name (schema ! i)) = typedValue (Type (schema ! i)) (fieldText line schema i)
           \<and> data (Name (schema ! i)) \<noteq> None)"
proof -
  note e = decodeFields_entries [OF assms]
  have entries: "\<forall>i<length schema.
             data (Name (schema ! i)) = typedValue (Type (schema ! i)) (fieldText line schema i)
           \<and> data (Name (schema ! i)) \<noteq> None"
    unfolding fieldText_def using e [THEN conjunct1] by (simp only: add_0)
  have other: "\<forall>n. n \<notin> Name ` set schema \<longrightarrow> data n = None"
    using e [THEN conjunct2] by simp
  have dm: "dom data = Name ` set schema"
  proof
    show "dom data \<subseteq> Name ` set schema" using other by (auto simp: dom_def)
  next
    show "Name ` set schema \<subseteq> dom data"
    proof
      fix n assume "n \<in> Name ` set schema"
      then obtain i where "i < length schema" "n = Name (schema ! i)"
        by (auto simp: in_set_conv_nth)
      with entries have "data n \<noteq> None" by blast
      then show "n \<in> dom data" by (simp add: dom_def)
    qed
  qed
  have "card (Name ` set schema) = length schema"
    using distinct_card [OF assms(2)] by simp
  with dm have c: "card (dom data) = length schema" by simp
  from c dm entries show ?thesis by blast
qed

text \<open>The two-field schema on a line with a leading blank.\<close>

theorem decoded_record_entries_witness:
  "decodeFields '' 42T'' [\<lparr>Name = ''id'', Width = 3, Type = ''INTEGER''\<rparr>,
                           \<lparr>Name = ''flag'', Width = 1, Type = ''BOOLEAN''\<rparr>] 0 Map.empty
     = Return [''id'' \<mapsto> GoInt 42, ''flag'' \<mapsto> GoBool True]
   \<and> distinct (map Name [\<lparr>Name = ''id'', Width = 3, Type = ''INTEGER''\<rparr>,
                           \<lparr>Name = ''flag'', Width = 1, Type = ''BOOLEAN''\<rparr>])
   \<and> validDataType ''INTEGER'' \<and> validDataType ''BOOLEAN''
   \<and> card (dom [''id'' \<mapsto> GoInt 42, ''flag'' \<mapsto> GoBool True]) = 2
   \<and> dom [''id'' \<mapsto> GoInt 42, ''flag'' \<mapsto> GoBool True] = {''id'', ''flag''}
   \<and> typedValue ''INTEGER'' (fieldText '' 42T'' [\<lparr>Name = ''id'', Width = 3, Type = ''INTEGER''\<rparr>,
                           \<lparr>Name = ''flag'', Width = 1, Type = ''BOOLEAN''\<rparr>] 0) = Some (GoInt 42)
   \<and> typedValue ''BOOLEAN'' (fieldText '' 42T'' [\<lparr>Name = ''id'', Width = 3, Type = ''INTEGER''\<rparr>,
                           \<lparr>Name = ''flag'', Width = 1, Type = ''BOOLEAN''\<rparr>] 1) = Some (GoBool True)"
proof -
  let ?schema = "[\<lparr>Name = ''id'', Width = 3, Type = ''INTEGER''\<rparr>,
                  \<lparr>Name = ''flag'', Width = 1, Type = ''BOOLEAN''\<rparr>]"
  let ?data = "[''id'' \<mapsto> GoInt 42, ''flag'' \<mapsto> GoBool True]"
  have h1: "decodeFields '' 42T'' ?schema 0 Map.empty = Return ?data"
    by (simp add: library_defs program_defs)
  have h2: "distinct (map Name ?schema)" by simp
  have v: "validDataType ''INTEGER''" "validDataType ''BOOLEAN''"
    by (simp_all add: validDataType_def program_defs)
  then have h3: "\<forall>f\<in>set ?schema. validDataType (Type f)" by simp
  note r = decoded_record_entries [OF h1 h2 h3]
  from r have c: "card (dom ?data) = 2" and d: "dom ?data = {''id'', ''flag''}" by simp_all
  from r have e: "\<forall>i<length ?schema.
      ?data (Name (?schema ! i)) = typedValue (Type (?schema ! i)) (fieldText '' 42T'' ?schema i)"
    by blast
  from e [rule_format, of 0] e [rule_format, of 1]
  have t: "typedValue ''INTEGER'' (fieldText '' 42T'' ?schema 0) = Some (GoInt 42)"
    "typedValue ''BOOLEAN'' (fieldText '' 42T'' ?schema 1) = Some (GoBool True)"
    by simp_all
  from h1 h2 v c d t show ?thesis by simp
qed



section \<open>Pairing schema files with data files\<close>






section \<open>How a run ends\<close>

text \<open>
  The panics a run can end in: the one \<^verbatim>\<open>main\<close> raises itself when the schema
  directory cannot be listed, and otherwise only an out-of-range slice in
  \<^verbatim>\<open>getRecordJson\<close> or an out-of-range index in \<^verbatim>\<open>getSchema\<close>.
\<close>

lemma decodeFields_Panic:
  "decodeFields line schema start data = Panic p \<Longrightarrow> p = SliceBoundsOutOfRange"
proof (induction schema arbitrary: start data)
  case Nil
  then show ?case by simp
next
  case (Cons f fs)
  from Cons.prems
  have "p = SliceBoundsOutOfRange \<or> (\<exists>d1. decodeFields line fs (start + Width f) d1 = Panic p)"
    unfolding decodeFields_Cons by (auto split: if_splits sum.splits)
  with Cons.IH show ?case by blast
qed

lemma parseRecords_Panic:
  "parseRecords fileName i records fieldList = Panic p \<Longrightarrow> p = IndexOutOfRange"
proof (induction records arbitrary: i fieldList)
  case Nil
  then show ?case by simp
next
  case (Cons r rs)
  from Cons.prems
  have "p = IndexOutOfRange \<or> (\<exists>j fl. parseRecords fileName j rs fl = Panic p)"
    by (auto simp: Let_def split: if_splits sum.splits)
  with Cons.IH show ?case by blast
qed

lemma processRecords_Panic:
  "snd (processRecords marshal schema dataRecords) = Some p \<Longrightarrow> p = SliceBoundsOutOfRange"
proof (induction dataRecords)
  case Nil
  then show ?case by simp
next
  case (Cons r rs)
  show ?case
  proof (cases "getRecordJson marshal r schema")
    case (Panic q)
    then have "decodeFields r schema 0 Map.empty = Panic q"
      by (auto simp: getRecordJson_def split: outcome.splits sum.splits)
    with Panic Cons.prems decodeFields_Panic show ?thesis by auto
  next
    case (Return json)
    with Cons show ?thesis by (auto split: prod.splits)
  next
    case (Fail err)
    with Cons show ?thesis by (auto split: prod.splits)
  qed
qed

lemma processRecords_Panic_pair:
  "processRecords marshal schema dataRecords = (events, Some p) \<Longrightarrow> p = SliceBoundsOutOfRange"
  using processRecords_Panic [of marshal schema dataRecords p] by simp

lemma processSchemaFile_Panic:
  "snd (processSchemaFile env fileName) = Some p \<Longrightarrow>
   p = SliceBoundsOutOfRange \<or> p = IndexOutOfRange"
proof (cases "getSchema env fileName")
  case (Panic q)
  assume a: "snd (processSchemaFile env fileName) = Some p"
  from Panic have "q = IndexOutOfRange"
    by (auto simp: getSchema_def getSchemaRecords_def split: sum.splits dest: parseRecords_Panic)
  with Panic a show ?thesis by (simp add: processSchemaFile_def)
next
  case (Fail err)
  assume "snd (processSchemaFile env fileName) = Some p"
  with Fail show ?thesis by (simp add: processSchemaFile_def)
next
  case (Return schema)
  assume "snd (processSchemaFile env fileName) = Some p"
  with Return show ?thesis
    by (auto simp: processSchemaFile_def Let_def split: if_splits sum.splits prod.splits
          dest: processRecords_Panic_pair)
qed

lemma processSchemaFiles_Panic:
  "snd (processSchemaFiles env fileNames) = Some p \<Longrightarrow>
   p = SliceBoundsOutOfRange \<or> p = IndexOutOfRange"
proof (induction fileNames)
  case Nil
  then show ?case by simp
next
  case (Cons n ns)
  obtain events q where r: "processSchemaFile env n = (events, q)"
    by (cases "processSchemaFile env n")
  show ?case
  proof (cases q)
    case None
    with r Cons show ?thesis by (auto split: prod.splits)
  next
    case (Some p')
    with r Cons.prems have "p' = p" by simp
    with Some r processSchemaFile_Panic [of env n p] show ?thesis by simp
  qed
qed

lemma main_LogPanic:
  "snd (main env) = Some (LogPanic err) \<longleftrightarrow> readDir env = Inl err"
proof (cases "readDir env")
  case (Inl e)
  then show ?thesis by (simp add: main_def getSchemaFilenames_def)
next
  case (Inr names)
  with processSchemaFiles_Panic [of env names "LogPanic err"] show ?thesis
    by (auto simp: main_def getSchemaFilenames_def)
qed

text \<open>
  Claim C2. The schema directory is listed, the schema loads, and the data file
  holds the line \<open>04\<close> before a well-formed one: the run ends in the panic of the
  out-of-range slice, not normally, and nothing is posted.
\<close>

theorem main_panics_on_short_line:
  "main \<lparr>readDir = Inr [''measures.csv''],
          readCsv = (\<lambda>path. Inr [[''id'', ''3'', ''INTEGER''], [''flag'', ''1'', ''BOOLEAN'']]),
          readLines = (\<lambda>path. Inr ([''04'', ''042T''], None)),
          jsonMarshal = marshal\<rparr>
     = ([GetData ''measures.txt''], Some SliceBoundsOutOfRange)"
  by (simp add: main_def getSchemaFilenames_def processSchemaFile_def getSchema_def getData_def
        library_defs program_defs)

end
